theory Spec2Isabelle
  imports Complex_Main
begin

section \<open>Sky Sprint: the simulation of \<^verbatim>\<open>src/app/page.tsx\<close>\<close>

text \<open>
  The game keeps its state in refs and in the closure of the second effect of \<^verbatim>\<open>Game\<close>.
  The model passes that state explicitly. JavaScript numbers are modelled by \<open>real\<close> for
  coordinates, speeds and times and by \<open>int\<close> for the score, which starts at 0 and only
  ever grows by 1; the rounding of IEEE doubles in this arithmetic is not modelled. The best
  score can also hold what \<^verbatim>\<open>Number.parseInt\<close> returns and has a type of its own, below.
  The values returned by
  \<^verbatim>\<open>Math.random()\<close> are parameters of the tick. Drawing (\<^verbatim>\<open>render\<close>, \<^verbatim>\<open>resize\<close>, the star
  field) writes no simulation variable and is left out, as are the React display copies
  written by \<^verbatim>\<open>setStatus\<close>, \<^verbatim>\<open>setScore\<close> and \<^verbatim>\<open>setBest\<close>, which always receive the value
  stored in the ref beside them.
\<close>

subsection \<open>Data model\<close>

datatype GameStatus = Ready | Running | Over

record Obstacle =
  o_x :: real
  o_width :: real
  o_height :: real
  o_passed :: bool

record Player =
  p_x :: real
  p_y :: real
  p_vy :: real
  p_onGround :: bool

definition WORLD_WIDTH :: real where "WORLD_WIDTH = 360"
definition WORLD_HEIGHT :: real where "WORLD_HEIGHT = 640"
definition GROUND_HEIGHT :: real where "GROUND_HEIGHT = 72"
definition PLAYER_SIZE :: real where "PLAYER_SIZE = 42"
definition GRAVITY :: real where "GRAVITY = 1100"
definition JUMP_VELOCITY :: real where "JUMP_VELOCITY = - 420"

definition groundY :: real where
  "groundY = WORLD_HEIGHT - GROUND_HEIGHT"

text \<open>
  The numbers \<^verbatim>\<open>bestRef\<close> can hold: an integer, or an infinity, which \<^verbatim>\<open>Number.parseInt\<close>
  returns for a digit string beyond the range of a double. (\<^verbatim>\<open>NaN\<close> never reaches
  \<^verbatim>\<open>bestRef\<close>: the guard of line 61 excludes it, and every other value stored there is
  0 or a score.) The order is that of the numbers.
\<close>

datatype js_number = NegInfinity | Finite int | Infinity

instantiation js_number :: linorder
begin

fun less_eq_js_number :: "js_number \<Rightarrow> js_number \<Rightarrow> bool" where
  "less_eq_js_number NegInfinity _ = True"
| "less_eq_js_number (Finite a) NegInfinity = False"
| "less_eq_js_number (Finite a) (Finite b) = (a \<le> b)"
| "less_eq_js_number (Finite a) Infinity = True"
| "less_eq_js_number Infinity Infinity = True"
| "less_eq_js_number Infinity _ = False"

definition less_js_number :: "js_number \<Rightarrow> js_number \<Rightarrow> bool" where
  "less_js_number x y \<longleftrightarrow> x \<le> y \<and> \<not> y \<le> x"

instance
proof
  fix x y z :: js_number
  show "(x < y) = (x \<le> y \<and> \<not> y \<le> x)"
    by (simp add: less_js_number_def)
  show "x \<le> x"
    by (cases x) simp_all
  show "x \<le> y \<Longrightarrow> y \<le> z \<Longrightarrow> x \<le> z"
    by (cases x; cases y; cases z) simp_all
  show "x \<le> y \<Longrightarrow> y \<le> x \<Longrightarrow> x = y"
    by (cases x; cases y) simp_all
  show "x \<le> y \<or> y \<le> x"
    by (cases x; cases y) auto
qed

end

text \<open>A string of the host is a list of UTF-16 code units.\<close>

type_synonym js_string = "nat list"

definition js :: "string \<Rightarrow> js_string" where
  "js s = map of_char s"

text \<open>
  \<open>storage\<close> is the entry of \<^verbatim>\<open>window.localStorage\<close> under the key \<^verbatim>\<open>sky-sprint-best\<close>
  (\<open>None\<close> when the key is absent); \<open>status\<close>, \<open>score\<close> and \<open>best\<close> are \<^verbatim>\<open>statusRef\<close>,
  \<^verbatim>\<open>scoreRef\<close> and \<^verbatim>\<open>bestRef\<close>; the other fields are the variables of the effect's closure.
\<close>

record Game =
  status :: GameStatus
  score :: int
  best :: js_number
  storage :: "js_string option"
  lastTime :: real
  obstacles :: "Obstacle list"
  spawnTimer :: real
  speed :: real
  player :: Player

subsection \<open>Reading and writing the best score\<close>

text \<open>
  \<^verbatim>\<open>Number.parseInt(s, 10)\<close>: leading white space is skipped, one sign is read, then the
  longest run of decimal digits; no digit gives \<^verbatim>\<open>NaN\<close>, here \<open>None\<close>. What follows the
  digits is ignored. The result is the double nearest to the integer the digits denote
  (ties to the even significand), with the sign: the integer itself below \<open>2 ^ 53\<close>, an
  integer with 53 significant bits above, and an infinity from \<open>2 ^ 1024 - 2 ^ 970\<close> on,
  the midpoint between the largest double and \<open>2 ^ 1024\<close>. The language lets an
  implementation read the digits after the 20th as zeros; the model reads them all.
\<close>

definition isWhiteSpace :: "nat \<Rightarrow> bool" where
  "isWhiteSpace c \<longleftrightarrow>
     c \<in> {9, 10, 11, 12, 13, 32, 160, 5760, 8232, 8233, 8239, 8287, 12288, 65279}
     \<or> (8192 \<le> c \<and> c \<le> 8202)"

definition isDigit :: "nat \<Rightarrow> bool" where
  "isDigit c \<longleftrightarrow> 48 \<le> c \<and> c \<le> 57"

fun digitsValue :: "nat \<Rightarrow> nat list \<Rightarrow> nat" where
  "digitsValue acc [] = acc"
| "digitsValue acc (c # cs) = digitsValue (acc * 10 + (c - 48)) cs"

fun bitLength :: "nat \<Rightarrow> nat" where
  "bitLength n = (if n = 0 then 0 else Suc (bitLength (n div 2)))"

declare bitLength.simps [simp del]

definition roundToDouble :: "nat \<Rightarrow> nat" where
  "roundToDouble n =
     (if n < 2 ^ 53 then n
      else (let e = bitLength n - 53;
                q = n div 2 ^ e;
                r = n mod 2 ^ e;
                h = 2 ^ (e - 1)
            in (if h < r \<or> (r = h \<and> odd q) then q + 1 else q) * 2 ^ e))"

definition toNumber :: "bool \<Rightarrow> nat \<Rightarrow> js_number" where
  "toNumber neg n =
     (if 2 ^ 1024 - 2 ^ 970 \<le> n then (if neg then NegInfinity else Infinity)
      else Finite ((if neg then - 1 else 1) * int (roundToDouble n)))"

definition parseInt10 :: "js_string \<Rightarrow> js_number option" where
  "parseInt10 s =
     (let t = dropWhile isWhiteSpace s;
          neg = (t \<noteq> [] \<and> hd t = 45);
          u = (if t \<noteq> [] \<and> (hd t = 43 \<or> hd t = 45) then tl t else t);
          z = takeWhile isDigit u
      in if z = [] then None
         else Some (toNumber neg (digitsValue 0 z)))"

fun digits10 :: "nat \<Rightarrow> nat list" where
  "digits10 n = (if n < 10 then [48 + n] else digits10 (n div 10) @ [48 + n mod 10])"

declare digits10.simps [simp del]

text \<open>The template literal of an integer: its decimal digits, after a minus sign if negative.\<close>

definition toString10 :: "int \<Rightarrow> js_string" where
  "toString10 v = (if v < 0 then 45 # digits10 (nat (- v)) else digits10 (nat v))"

text \<open>
  The first effect of \<^verbatim>\<open>Game\<close>. It runs in the browser only, so \<^verbatim>\<open>window\<close> is defined.
\<close>

definition loadBest :: "Game \<Rightarrow> Game" where
  "loadBest g =
     (case parseInt10 (case storage g of None \<Rightarrow> js ''0'' | Some s \<Rightarrow> s) of
        None \<Rightarrow> g
      | Some saved \<Rightarrow> if saved > Finite 0 then g\<lparr>best := saved\<rparr> else g)"

definition setStatusSafe :: "GameStatus \<Rightarrow> Game \<Rightarrow> Game" where
  "setStatusSafe next g = g\<lparr>status := next\<rparr>"

definition setScoreSafe :: "int \<Rightarrow> Game \<Rightarrow> Game" where
  "setScoreSafe v g = g\<lparr>score := v\<rparr>"

text \<open>\<^verbatim>\<open>updateBest\<close> is only ever called with a score.\<close>

definition updateBest :: "int \<Rightarrow> Game \<Rightarrow> Game" where
  "updateBest v g =
     (if Finite v \<le> best g then g
      else g\<lparr>best := Finite v, storage := Some (toString10 v)\<rparr>)"

subsection \<open>The tick\<close>

definition endGame :: "Game \<Rightarrow> Game" where
  "endGame g =
     (if status g \<noteq> Running then g
      else updateBest (score g) (setStatusSafe Over g))"

text \<open>Lines 242 to 251 of \<^verbatim>\<open>updateGame\<close>: gravity, then the clamp to the ground.\<close>

definition stepPlayer :: "real \<Rightarrow> Player \<Rightarrow> Player" where
  "stepPlayer delta p =
     (let vy1 = p_vy p + GRAVITY * delta;
          y1 = p_y p + vy1 * delta
      in if y1 \<ge> groundY - PLAYER_SIZE
         then p\<lparr>p_y := groundY - PLAYER_SIZE, p_vy := 0, p_onGround := True\<rparr>
         else p\<lparr>p_y := y1, p_vy := vy1, p_onGround := False\<rparr>)"

text \<open>
  Lines 253 to 266: the spawn countdown. The triple holds the three values \<^verbatim>\<open>Math.random()\<close>
  returns, in the order of the calls: for the width, the height and the next countdown.
\<close>

definition difficultyBoost :: "int \<Rightarrow> real" where
  "difficultyBoost sc = min (1.2 + real_of_int sc * 0.015) 1.7"

definition spawnStep :: "real \<Rightarrow> real \<times> real \<times> real \<Rightarrow> Game \<Rightarrow> Game" where
  "spawnStep delta rnd g =
     (let t = spawnTimer g - delta
      in if t \<le> 0
         then (case rnd of (rw, rh, rt) \<Rightarrow>
                 let width = 44 + rw * 32;
                     height = 60 + rh * 90
                 in g\<lparr>obstacles := obstacles g @
                          [\<lparr>o_x = WORLD_WIDTH + width, o_width = width,
                            o_height = height, o_passed = False\<rparr>],
                       spawnTimer := 0.8 / difficultyBoost (score g) + rt * 0.4,
                       speed := min 360 (speed g + 3)\<rparr>)
         else g\<lparr>spawnTimer := t\<rparr>)"

text \<open>
  Lines 268 to 276: the body of the \<^verbatim>\<open>forEach\<close> for one obstacle, and the loop over the
  list from left to right. \<open>dx\<close> is \<^verbatim>\<open>speed * delta\<close>, which the loop does not change.
\<close>

definition passObstacle :: "real \<Rightarrow> Obstacle \<Rightarrow> Game \<Rightarrow> Obstacle \<times> Game" where
  "passObstacle dx ob g =
     (let ob1 = ob\<lparr>o_x := o_x ob - dx\<rparr>
      in if \<not> o_passed ob1 \<and> o_x ob1 + o_width ob1 < p_x (player g)
         then (let newScore = score g + 1
               in (ob1\<lparr>o_passed := True\<rparr>, updateBest newScore (setScoreSafe newScore g)))
         else (ob1, g))"

fun forEachObstacle :: "real \<Rightarrow> Obstacle list \<Rightarrow> Game \<Rightarrow> Obstacle list \<times> Game" where
  "forEachObstacle dx [] g = ([], g)"
| "forEachObstacle dx (ob # obs) g =
     (case passObstacle dx ob g of
        (ob1, g1) \<Rightarrow> (case forEachObstacle dx obs g1 of
                        (obs1, g2) \<Rightarrow> (ob1 # obs1, g2)))"

definition onScreen :: "Obstacle \<Rightarrow> bool" where
  "onScreen ob \<longleftrightarrow> o_x ob + o_width ob > - 20"

text \<open>Lines 280 to 284: the overlap test of the player with one obstacle.\<close>

definition overlaps :: "Player \<Rightarrow> Obstacle \<Rightarrow> bool" where
  "overlaps p ob \<longleftrightarrow>
     (let withinX = (p_x p + PLAYER_SIZE - 6 > o_x ob \<and> p_x p + 6 < o_x ob + o_width ob);
          withinY = (p_y p + PLAYER_SIZE > groundY - o_height ob)
      in withinX \<and> withinY)"

definition hit :: "Game \<Rightarrow> bool" where
  "hit g \<longleftrightarrow> list_ex (overlaps (player g)) (obstacles g)"

definition updateGame :: "real \<Rightarrow> real \<times> real \<times> real \<Rightarrow> Game \<Rightarrow> Game" where
  "updateGame delta rnd g =
     (let g1 = g\<lparr>player := stepPlayer delta (player g)\<rparr>;
          g2 = spawnStep delta rnd g1
      in case forEachObstacle (speed g2 * delta) (obstacles g2) g2 of
           (obs, g3) \<Rightarrow>
             (let g4 = g3\<lparr>obstacles := filter onScreen obs\<rparr>
              in if hit g4 then endGame g4 else g4))"

text \<open>
  \<^verbatim>\<open>loop\<close> is the animation-frame callback; \<open>time\<close> is the timestamp the host passes. The
  requests for the next frame are the host's business: the model lets a frame arrive at any
  moment.
\<close>

definition loop :: "real \<Rightarrow> real \<times> real \<times> real \<Rightarrow> Game \<Rightarrow> Game" where
  "loop time rnd g =
     (let delta = min 0.035 ((time - lastTime g) / 1000);
          g1 = g\<lparr>lastTime := time\<rparr>
      in if status g1 = Running then updateGame delta rnd g1 else g1)"

definition prepareGame :: "Game \<Rightarrow> Game" where
  "prepareGame g =
     setStatusSafe Ready (setScoreSafe 0
       (g\<lparr>obstacles := [], spawnTimer := 1, speed := 190,
          player := \<lparr>p_x = 74, p_y = groundY - PLAYER_SIZE, p_vy = 0, p_onGround = True\<rparr>\<rparr>))"

text \<open>\<open>now\<close> is the value of \<^verbatim>\<open>performance.now()\<close>.\<close>

definition startGame :: "real \<Rightarrow> Game \<Rightarrow> Game" where
  "startGame now g =
     (if status g = Running then g
      else setStatusSafe Running (g\<lparr>lastTime := now\<rparr>))"

definition jump :: "Game \<Rightarrow> Game" where
  "jump g =
     (if status g \<noteq> Running then g
      else if \<not> p_onGround (player g) then g
      else g\<lparr>player := (player g)\<lparr>p_vy := JUMP_VELOCITY, p_onGround := False\<rparr>\<rparr>)"

text \<open>
  The state after both effects of \<^verbatim>\<open>Game\<close> have run at page load: the refs and the closure
  variables at their initial values, the stored best score read, \<^verbatim>\<open>prepareGame\<close> called.
\<close>

definition mount :: "js_string option \<Rightarrow> real \<Rightarrow> Game" where
  "mount stored now =
     prepareGame (loadBest
       \<lparr>status = Ready, score = 0, best = Finite 0, storage = stored, lastTime = now,
        obstacles = [], spawnTimer = 1, speed = 190,
        player = \<lparr>p_x = 74, p_y = groundY - PLAYER_SIZE, p_vy = 0, p_onGround = True\<rparr>\<rparr>)"

text \<open>
  What happens in a session: a frame arrives (with its timestamp and the three random
  values a spawn would draw), or an input handler calls one of the entry points
  \<^verbatim>\<open>start\<close>, \<^verbatim>\<open>jump\<close>, \<^verbatim>\<open>reset\<close>. A pointer press or the space key is a sequence of
  these: \<^verbatim>\<open>start\<close> and a later \<^verbatim>\<open>jump\<close> when ready, \<^verbatim>\<open>reset\<close> then \<^verbatim>\<open>start\<close> when over,
  \<^verbatim>\<open>jump\<close> when running.
\<close>

datatype Event = Frame real "real \<times> real \<times> real" | Start real | Jump | Reset

fun fire :: "Event \<Rightarrow> Game \<Rightarrow> Game" where
  "fire (Frame time rnd) g = loop time rnd g"
| "fire (Start now) g = startGame now g"
| "fire Jump g = jump g"
| "fire Reset g = prepareGame g"

fun run :: "Event list \<Rightarrow> Game \<Rightarrow> Game" where
  "run [] g = g"
| "run (e # es) g = run es (fire e g)"

text \<open>\<^verbatim>\<open>Math.random()\<close> returns a value in \<open>[0, 1)\<close>.\<close>

definition unit_interval :: "real \<Rightarrow> bool" where
  "unit_interval r \<longleftrightarrow> 0 \<le> r \<and> r < 1"

fun valid_event :: "Event \<Rightarrow> bool" where
  "valid_event (Frame time (rw, rh, rt)) \<longleftrightarrow>
     unit_interval rw \<and> unit_interval rh \<and> unit_interval rt"
| "valid_event _ \<longleftrightarrow> True"

inductive reachable :: "Game \<Rightarrow> bool" where
  r_mount: "reachable (mount stored now)"
| r_fire: "reachable g \<Longrightarrow> valid_event e \<Longrightarrow> reachable (fire e g)"

text \<open>
  Vocabulary for the statements below. \<open>crosses dx px ob\<close>: the obstacle is not yet passed
  and, once moved left by \<open>dx\<close>, has its right edge left of \<open>px\<close> (the test of line 270 on
  the obstacle as it enters the tick). \<open>moved dx px ob\<close>: the obstacle as the \<^verbatim>\<open>forEach\<close>
  leaves it. \<open>followObstacle\<close>: the body of the \<^verbatim>\<open>forEach\<close> applied to one obstacle tick
  after tick, each tick with its value of \<^verbatim>\<open>speed * delta\<close> and the state of the game
  when the loop reaches the obstacle; the result is the sum of what these applications add
  to the score.
\<close>

definition crosses :: "real \<Rightarrow> real \<Rightarrow> Obstacle \<Rightarrow> bool" where
  "crosses dx px ob \<longleftrightarrow> \<not> o_passed ob \<and> o_x ob - dx + o_width ob < px"

definition moved :: "real \<Rightarrow> real \<Rightarrow> Obstacle \<Rightarrow> Obstacle" where
  "moved dx px ob =
     ob\<lparr>o_x := o_x ob - dx, o_passed := (o_passed ob \<or> o_x ob - dx + o_width ob < px)\<rparr>"

fun followObstacle :: "(real \<times> Game) list \<Rightarrow> Obstacle \<Rightarrow> int" where
  "followObstacle [] ob = 0"
| "followObstacle ((dx, g) # ticks) ob =
     (case passObstacle dx ob g of
        (ob1, g1) \<Rightarrow> (score g1 - score g) + followObstacle ticks ob1)"

text \<open>
  \<open>restY\<close>: the height at which the player stands on the ground. \<open>beforeHit\<close>: the state
  of a tick when it reaches the overlap test of line 280.
\<close>

definition restY :: real where
  "restY = groundY - PLAYER_SIZE"

definition beforeHit :: "real \<Rightarrow> real \<times> real \<times> real \<Rightarrow> Game \<Rightarrow> Game" where
  "beforeHit delta rnd g =
     (let g2 = spawnStep delta rnd (g\<lparr>player := stepPlayer delta (player g)\<rparr>);
          r = forEachObstacle (speed g2 * delta) (obstacles g2) g2
      in (snd r)\<lparr>obstacles := filter onScreen (fst r)\<rparr>)"

text \<open>
  The scenario of an injected obstacle: a running game whose only obstacle has its left
  edge at \<open>x0\<close>, width 50 and height 80 and is not yet passed, the player at rest on the
  ground at \<open>x = 74\<close>.
\<close>

definition injected :: "real \<Rightarrow> Game" where
  "injected x0 =
     \<lparr>status = Running, score = 0, best = Finite 0, storage = None, lastTime = 0,
      obstacles = [\<lparr>o_x = x0, o_width = 50, o_height = 80, o_passed = False\<rparr>],
      spawnTimer = 1, speed = 190,
      player = \<lparr>p_x = 74, p_y = restY, p_vy = 0, p_onGround = True\<rparr>\<rparr>"

text \<open>
  \<open>best_advances g g'\<close>: from \<open>g\<close> to \<open>g'\<close> the best score has not decreased, and the
  stored entry is the same unless the best score has grown.
\<close>

definition best_advances :: "Game \<Rightarrow> Game \<Rightarrow> bool" where
  "best_advances g g' \<longleftrightarrow> best g \<le> best g' \<and> (best g' = best g \<longrightarrow> storage g' = storage g)"

text \<open>
  A running game with two obstacles not yet passed, one left of the player and one under
  it, the player at rest.
\<close>

definition twoObstacles :: Game where
  "twoObstacles = (injected 0)\<lparr>obstacles :=
     [\<lparr>o_x = 0, o_width = 50, o_height = 80, o_passed = False\<rparr>,
      \<lparr>o_x = 60, o_width = 50, o_height = 80, o_passed = False\<rparr>]\<rparr>"

text \<open>
  \<open>unpassed g\<close>: how many obstacles of the list are not yet passed. \<open>created e g\<close>: how
  many obstacles the event \<open>e\<close>, arriving in the state \<open>g\<close>, appends to the list (a frame
  that finds the game running appends what the spawn countdown of its tick appends; nothing
  else appends any). \<open>spawns es g\<close>: how many obstacles are appended while the events \<open>es\<close>
  arrive one after the other from \<open>g\<close> on.
\<close>

definition unpassed :: "Game \<Rightarrow> nat" where
  "unpassed g = length (filter (\<lambda>ob. \<not> o_passed ob) (obstacles g))"

fun created :: "Event \<Rightarrow> Game \<Rightarrow> nat" where
  "created (Frame time rnd) g =
     (if status g = Running
      then length (obstacles (spawnStep (min 0.035 ((time - lastTime g) / 1000)) rnd g))
             - length (obstacles g)
      else 0)"
| "created _ g = 0"

fun spawns :: "Event list \<Rightarrow> Game \<Rightarrow> nat" where
  "spawns [] g = 0"
| "spawns (e # es) g = created e g + spawns es (fire e g)"

text \<open>What every reachable state satisfies.\<close>

definition game_inv :: "Game \<Rightarrow> bool" where
  "game_inv g \<longleftrightarrow> p_x (player g) = 74 \<and> p_y (player g) \<le> restY
     \<and> (p_onGround (player g) \<longrightarrow> p_y (player g) = restY)
     \<and> 0 \<le> score g \<and> Finite (score g) \<le> best g \<and> 190 \<le> speed g \<and> speed g \<le> 360"

section \<open>Properties of the simulation\<close>

subsection \<open>What a tick does to each field\<close>

lemmas consts_defs = WORLD_WIDTH_def WORLD_HEIGHT_def GROUND_HEIGHT_def PLAYER_SIZE_def
  GRAVITY_def JUMP_VELOCITY_def groundY_def

lemma Finite_less [simp]: "Finite a < Finite b \<longleftrightarrow> a < b"
  by (auto simp: less_js_number_def)

lemma Finite_less_Infinity [simp]: "Finite a < Infinity"
  by (simp add: less_js_number_def)

lemma max_absorb_between:
  "(b :: 'a :: linorder) \<le> b' \<Longrightarrow> b' \<le> max b s \<Longrightarrow> max s b' = max b s"
  by (auto simp: max_def split: if_splits)

lemma le_max_chain:
  "(x :: 'a :: linorder) \<le> max b s \<Longrightarrow> s \<le> s' \<Longrightarrow> y \<le> max x s' \<Longrightarrow> y \<le> max b s'"
  by (auto simp: max_def split: if_splits)

lemma Finite_max [simp]: "max (Finite a) (Finite b) = Finite (max a b)"
  by (simp add: max_def)

lemma updateBest_fields [simp]:
  "status (updateBest v g) = status g" "score (updateBest v g) = score g"
  "lastTime (updateBest v g) = lastTime g" "obstacles (updateBest v g) = obstacles g"
  "spawnTimer (updateBest v g) = spawnTimer g" "speed (updateBest v g) = speed g"
  "player (updateBest v g) = player g"
  "best (updateBest v g) = max (Finite v) (best g)"
  by (auto simp: updateBest_def max_def)

lemma passObstacle_fst: "fst (passObstacle dx ob g) = moved dx (p_x (player g)) ob"
  by (simp add: passObstacle_def moved_def Let_def)

lemma passObstacle_snd_fields [simp]:
  "status (snd (passObstacle dx ob g)) = status g"
  "lastTime (snd (passObstacle dx ob g)) = lastTime g" "obstacles (snd (passObstacle dx ob g)) = obstacles g"
  "spawnTimer (snd (passObstacle dx ob g)) = spawnTimer g" "speed (snd (passObstacle dx ob g)) = speed g"
  "player (snd (passObstacle dx ob g)) = player g"
  by (simp_all add: passObstacle_def Let_def setScoreSafe_def)

lemma passObstacle_score:
  "score (snd (passObstacle dx ob g)) = score g + (if crosses dx (p_x (player g)) ob then 1 else 0)"
  by (simp add: passObstacle_def Let_def setScoreSafe_def crosses_def)

lemma passObstacle_best:
  "best (snd (passObstacle dx ob g)) =
     (if crosses dx (p_x (player g)) ob then max (Finite (score g + 1)) (best g) else best g)"
  by (simp add: passObstacle_def Let_def setScoreSafe_def crosses_def)

lemma forEach_fst: "fst (forEachObstacle dx obs g) = map (moved dx (p_x (player g))) obs"
proof (induction obs arbitrary: g)
  case Nil show ?case by simp
next
  case (Cons ob obs)
  have "player (snd (passObstacle dx ob g)) = player g" by simp
  with Cons[of "snd (passObstacle dx ob g)"] show ?case
    by (simp add: split_beta passObstacle_fst)
qed

lemma forEach_fields [simp]:
  "status (snd (forEachObstacle dx obs g)) = status g"
  "lastTime (snd (forEachObstacle dx obs g)) = lastTime g"
  "obstacles (snd (forEachObstacle dx obs g)) = obstacles g"
  "spawnTimer (snd (forEachObstacle dx obs g)) = spawnTimer g"
  "speed (snd (forEachObstacle dx obs g)) = speed g"
  "player (snd (forEachObstacle dx obs g)) = player g"
  by (induction obs arbitrary: g; simp add: split_beta)+

lemma forEach_score:
  "score (snd (forEachObstacle dx obs g)) = score g + int (length (filter (crosses dx (p_x (player g))) obs))"
  by (induction obs arbitrary: g) (simp_all add: split_beta passObstacle_score)

lemma forEach_best_ge: "best g \<le> best (snd (forEachObstacle dx obs g))"
proof (induction obs arbitrary: g)
  case Nil show ?case by simp
next
  case (Cons ob obs)
  have "best g \<le> best (snd (passObstacle dx ob g))" by (simp add: passObstacle_best)
  also have "\<dots> \<le> best (snd (forEachObstacle dx obs (snd (passObstacle dx ob g))))" by (rule Cons)
  finally show ?case by (simp add: split_beta)
qed

lemma forEach_best:
  "Finite (score g) \<le> best g \<Longrightarrow>
     Finite (score (snd (forEachObstacle dx obs g))) \<le> best (snd (forEachObstacle dx obs g))"
proof (induction obs arbitrary: g)
  case Nil
  then show ?case by simp
next
  case (Cons ob obs)
  let ?g1 = "snd (passObstacle dx ob g)"
  have "Finite (score ?g1) \<le> best ?g1"
    using Cons.prems by (simp add: passObstacle_best passObstacle_score)
  from Cons.IH[OF this] show ?case by (simp add: split_beta)
qed

lemma stepPlayer_y_le: "p_y (stepPlayer d p) \<le> groundY - PLAYER_SIZE"
  by (simp add: stepPlayer_def Let_def)

lemma stepPlayer_grounded_iff:
  "p_onGround (stepPlayer d p) \<longleftrightarrow> p_y (stepPlayer d p) = groundY - PLAYER_SIZE"
  by (simp add: stepPlayer_def Let_def)

lemma stepPlayer_x [simp]: "p_x (stepPlayer d p) = p_x p"
  by (simp add: stepPlayer_def Let_def)

lemma spawnStep_fields [simp]:
  "status (spawnStep d rnd g) = status g" "score (spawnStep d rnd g) = score g"
  "best (spawnStep d rnd g) = best g" "storage (spawnStep d rnd g) = storage g"
  "lastTime (spawnStep d rnd g) = lastTime g" "player (spawnStep d rnd g) = player g"
  by (simp_all add: spawnStep_def Let_def split_beta)

lemma endGame_fields [simp]:
  "score (endGame g) = score g" "lastTime (endGame g) = lastTime g"
  "obstacles (endGame g) = obstacles g" "spawnTimer (endGame g) = spawnTimer g"
  "speed (endGame g) = speed g" "player (endGame g) = player g"
  by (simp_all add: endGame_def setStatusSafe_def)

lemma updateGame_beforeHit:
  "updateGame d rnd g =
     (if hit (beforeHit d rnd g) then endGame (beforeHit d rnd g) else beforeHit d rnd g)"
  by (simp add: updateGame_def beforeHit_def Let_def split_beta)

lemma beforeHit_fields:
  "status (beforeHit d rnd g) = status g"
  "lastTime (beforeHit d rnd g) = lastTime g"
  "player (beforeHit d rnd g) = stepPlayer d (player g)"
  "speed (beforeHit d rnd g) = (if spawnTimer g - d \<le> 0 then min 360 (speed g + 3) else speed g)"
  by (simp_all add: beforeHit_def Let_def spawnStep_def split_beta)

lemma beforeHit_spawnTimer:
  "spawnTimer (beforeHit d (rw, rh, rt) g) =
     (if spawnTimer g - d \<le> 0 then 0.8 / difficultyBoost (score g) + rt * 0.4
      else spawnTimer g - d)"
  by (simp add: beforeHit_def Let_def spawnStep_def)

lemma beforeHit_obstacles:
  "obstacles (beforeHit d rnd g) =
     filter onScreen (map (moved (speed (beforeHit d rnd g) * d) (p_x (player g)))
       (obstacles (spawnStep d rnd g)))"
  by (simp add: beforeHit_def Let_def forEach_fst spawnStep_def split_beta)

lemma beforeHit_score:
  "score (beforeHit d rnd g) = score g +
     int (length (filter (crosses (speed (beforeHit d rnd g) * d) (p_x (player g)))
       (obstacles (spawnStep d rnd g))))"
  by (simp add: beforeHit_def Let_def forEach_score spawnStep_def split_beta)

lemma beforeHit_best_ge: "best g \<le> best (beforeHit d rnd g)"
proof -
  let ?g2 = "spawnStep d rnd (g\<lparr>player := stepPlayer d (player g)\<rparr>)"
  have "best ?g2 \<le> best (snd (forEachObstacle (speed ?g2 * d) (obstacles ?g2) ?g2))"
    by (rule forEach_best_ge)
  then show ?thesis by (simp add: beforeHit_def Let_def)
qed

lemma beforeHit_best:
  assumes "Finite (score g) \<le> best g"
  shows "Finite (score (beforeHit d rnd g)) \<le> best (beforeHit d rnd g)"
proof -
  let ?g2 = "spawnStep d rnd (g\<lparr>player := stepPlayer d (player g)\<rparr>)"
  have "Finite (score ?g2) \<le> best ?g2" using assms by simp
  from forEach_best[OF this, of "speed ?g2 * d" "obstacles ?g2"] show ?thesis
    by (simp add: beforeHit_def Let_def)
qed

lemma endGame_best:
  "best (endGame g) = (if status g = Running then max (Finite (score g)) (best g) else best g)"
  by (simp add: endGame_def setStatusSafe_def)

lemma endGame_status: "status (endGame g) = (if status g = Running then Over else status g)"
  by (simp add: endGame_def setStatusSafe_def)

lemma updateGame_player: "player (updateGame d rnd g) = stepPlayer d (player g)"
  by (simp add: updateGame_beforeHit beforeHit_fields)

lemma updateGame_speed:
  "speed (updateGame d rnd g) = (if spawnTimer g - d \<le> 0 then min 360 (speed g + 3) else speed g)"
  by (simp add: updateGame_beforeHit beforeHit_fields)

lemma updateGame_score: "score (updateGame d rnd g) = score (beforeHit d rnd g)"
  by (simp add: updateGame_beforeHit)

lemma updateGame_score_ge: "score g \<le> score (updateGame d rnd g)"
  by (simp add: updateGame_score beforeHit_score)

lemma updateGame_best_ge: "best g \<le> best (updateGame d rnd g)"
  using beforeHit_best_ge[of g d rnd]
  by (auto simp: updateGame_beforeHit endGame_best le_max_iff_disj)

lemma updateGame_status:
  "status (updateGame d rnd g) = (if hit (beforeHit d rnd g) \<and> status g = Running then Over else status g)"
  by (simp add: updateGame_beforeHit endGame_status beforeHit_fields)

lemma updateGame_best_score:
  assumes "Finite (score g) \<le> best g"
  shows "Finite (score (updateGame d rnd g)) \<le> best (updateGame d rnd g)"
  using beforeHit_best[OF assms, of d rnd]
  by (auto simp: updateGame_beforeHit endGame_best)

subsection \<open>The invariant holds in every reachable state\<close>

lemma inv_updateGame: assumes "game_inv g" shows "game_inv (updateGame d rnd g)"
proof -
  have s: "score g \<le> score (updateGame d rnd g)" by (rule updateGame_score_ge)
  have b: "Finite (score (updateGame d rnd g)) \<le> best (updateGame d rnd g)"
    using assms by (intro updateGame_best_score) (simp add: game_inv_def)
  have p: "p_y (stepPlayer d (player g)) \<le> restY"
      "p_onGround (stepPlayer d (player g)) \<longrightarrow> p_y (stepPlayer d (player g)) = restY"
    using stepPlayer_y_le[of d "player g"] stepPlayer_grounded_iff[of d "player g"]
    by (simp_all add: restY_def)
  show ?thesis using assms s b p
    by (auto simp: game_inv_def updateGame_player updateGame_speed)
qed

lemma inv_loop: "game_inv g \<Longrightarrow> game_inv (loop t rnd g)"
proof -
  assume a: "game_inv g"
  then have "game_inv (g\<lparr>lastTime := t\<rparr>)" by (simp add: game_inv_def)
  then show ?thesis using inv_updateGame by (simp add: loop_def Let_def)
qed

lemma inv_prepareGame: "Finite 0 \<le> best g \<Longrightarrow> game_inv (prepareGame g)"
  by (simp add: game_inv_def prepareGame_def setStatusSafe_def setScoreSafe_def restY_def)

lemma inv_fire: "game_inv g \<Longrightarrow> game_inv (fire e g)"
proof (cases e)
  case (Frame t rnd) assume "game_inv g" then show ?thesis using Frame by (simp add: inv_loop)
next
  case (Start now) assume "game_inv g" then show ?thesis using Start
    by (simp add: game_inv_def startGame_def setStatusSafe_def)
next
  case Jump assume "game_inv g" then show ?thesis using Jump
    by (simp add: game_inv_def jump_def)
next
  case Reset assume "game_inv g"
  then have "Finite 0 \<le> Finite (score g)" "Finite (score g) \<le> best g"
    by (simp_all add: game_inv_def)
  then have "Finite 0 \<le> best g" by (rule order_trans)
  then show ?thesis using Reset by (simp add: inv_prepareGame)
qed

lemma loadBest_best_nonneg: "Finite 0 \<le> best g \<Longrightarrow> Finite 0 \<le> best (loadBest g)"
  by (simp add: loadBest_def less_imp_le split: option.splits)

lemma inv_mount: "game_inv (mount stored now)"
  unfolding mount_def by (rule inv_prepareGame, rule loadBest_best_nonneg) simp

lemma reachable_inv: "reachable g \<Longrightarrow> game_inv g"
  by (induction rule: reachable.induct) (simp_all add: inv_mount inv_fire)

section \<open>The claims\<close>

subsection \<open>Physics tick\<close>

text \<open>
  Claim C7. A frame that finds the game running calls \<^verbatim>\<open>updateGame\<close> with a delta that is
  at most 0.035: the elapsed time in seconds, or 0.035 when more has elapsed. The tick
  adds gravity times delta to the vertical velocity and the new velocity times delta to
  the position; if the position so projected is at or below the resting height, the player
  is put at the resting height with velocity 0 and grounded set, and otherwise grounded is
  cleared.
\<close>

theorem loop_clamps_delta_and_steps_player:
  "status g = Running \<Longrightarrow>
   (let delta = min 0.035 ((time - lastTime g) / 1000);
        vy1 = p_vy (player g) + GRAVITY * delta;
        y1 = p_y (player g) + vy1 * delta
    in delta \<le> 0.035
       \<and> loop time rnd g = updateGame delta rnd (g\<lparr>lastTime := time\<rparr>)
       \<and> player (loop time rnd g) =
           (if y1 \<ge> groundY - PLAYER_SIZE
            then (player g)\<lparr>p_y := groundY - PLAYER_SIZE, p_vy := 0, p_onGround := True\<rparr>
            else (player g)\<lparr>p_y := y1, p_vy := vy1, p_onGround := False\<rparr>))"
  by (simp add: loop_def Let_def updateGame_player stepPlayer_def)

theorem loop_clamps_delta_and_steps_player_witness:
  "status (jump (injected 300)) = Running
   \<and> player (loop 1000 (0, 0, 0) (jump (injected 300)))
       = \<lparr>p_x = 74, p_y = 512.6475, p_vy = - 381.5, p_onGround = False\<rparr>"
proof -
  have h: "status (jump (injected 300)) = Running"
    by (simp add: injected_def jump_def)
  have p: "player (jump (injected 300)) = \<lparr>p_x = 74, p_y = 526, p_vy = - 420, p_onGround = False\<rparr>"
      "lastTime (jump (injected 300)) = 0"
    by (simp_all add: injected_def jump_def consts_defs restY_def)
  show ?thesis
    using h loop_clamps_delta_and_steps_player
      [OF h, of 1000 "(0, 0, 0)", unfolded Let_def, THEN conjunct2, THEN conjunct2]
    by (simp add: p consts_defs)
qed

subsection \<open>Jump\<close>

text \<open>
  Claim C8. \<^verbatim>\<open>jump\<close> sets the vertical velocity to the jump velocity and clears grounded
  when the game is running and the player is grounded, and changes nothing else; when the
  game is not running or the player is airborne it leaves the whole state as it is.
\<close>

theorem jump_only_when_running_and_grounded:
  "(status g = Running \<and> p_onGround (player g) \<longrightarrow>
      jump g = g\<lparr>player := (player g)\<lparr>p_vy := JUMP_VELOCITY, p_onGround := False\<rparr>\<rparr>
      \<and> p_vy (player (jump g)) = - 420 \<and> \<not> p_onGround (player (jump g)))
   \<and> (status g \<noteq> Running \<or> \<not> p_onGround (player g) \<longrightarrow> jump g = g)"
  by (simp add: jump_def JUMP_VELOCITY_def)

theorem jump_only_when_running_and_grounded_witness:
  "status (startGame 0 (mount None 0)) = Running
   \<and> p_onGround (player (startGame 0 (mount None 0)))
   \<and> p_vy (player (jump (startGame 0 (mount None 0)))) = - 420
   \<and> \<not> p_onGround (player (jump (startGame 0 (mount None 0))))
   \<and> jump (jump (startGame 0 (mount None 0))) = jump (startGame 0 (mount None 0))
   \<and> status (mount None 0) \<noteq> Running
   \<and> jump (mount None 0) = mount None 0"
proof -
  let ?g = "startGame 0 (mount None 0)"
  have r: "status (mount None 0) = Ready"
    by (simp add: mount_def prepareGame_def setStatusSafe_def setScoreSafe_def)
  have h: "status ?g = Running \<and> p_onGround (player ?g)"
    by (simp add: startGame_def mount_def prepareGame_def setStatusSafe_def setScoreSafe_def)
  show ?thesis
    using r h jump_only_when_running_and_grounded [of ?g]
      jump_only_when_running_and_grounded [of "jump ?g"]
      jump_only_when_running_and_grounded [of "mount None 0"]
    by (simp add: JUMP_VELOCITY_def)
qed

subsection \<open>The player and the ground\<close>

text \<open>
  Claim C2 says that in every reachable state the grounded flag is set exactly when the
  player is at the resting height. \<^verbatim>\<open>jump\<close> clears the flag and leaves the position alone,
  so after a start and a jump the player is at the resting height with the flag cleared.
\<close>

theorem grounded_iff_resting_counterexample:
  "reachable (fire Jump (fire (Start 0) (mount None 0)))
   \<and> p_y (player (fire Jump (fire (Start 0) (mount None 0)))) = groundY - PLAYER_SIZE
   \<and> \<not> p_onGround (player (fire Jump (fire (Start 0) (mount None 0))))"
proof -
  have "reachable (fire Jump (fire (Start 0) (mount None 0)))"
    by (intro r_fire r_mount) simp_all
  then show ?thesis
    by (simp add: jump_def startGame_def mount_def prepareGame_def setStatusSafe_def
        setScoreSafe_def)
qed

text \<open>
  Claim C2, amended. In every reachable state the player is at or above the resting height
  (\<open>y\<close> grows downwards) and a grounded player is at the resting height; \<^verbatim>\<open>jump\<close> keeps
  both. After each tick the grounded flag is set exactly when the player is at the resting
  height.
\<close>

theorem player_never_below_ground:
  "reachable g \<Longrightarrow>
     p_y (player g) \<le> groundY - PLAYER_SIZE
     \<and> (p_onGround (player g) \<longrightarrow> p_y (player g) = groundY - PLAYER_SIZE)
     \<and> (status g = Running \<longrightarrow>
          (p_onGround (player (loop time rnd g))
             \<longleftrightarrow> p_y (player (loop time rnd g)) = groundY - PLAYER_SIZE))
     \<and> p_y (player (jump g)) \<le> groundY - PLAYER_SIZE
     \<and> (p_onGround (player (jump g)) \<longrightarrow> p_y (player (jump g)) = groundY - PLAYER_SIZE)"
proof -
  assume r: "reachable g"
  have j: "reachable (fire Jump g)" using r by (rule r_fire) simp
  have a: "game_inv g" using r by (rule reachable_inv)
  have b: "game_inv (jump g)" using reachable_inv[OF j] by simp
  have c: "status g = Running \<longrightarrow>
          (p_onGround (player (loop time rnd g))
             \<longleftrightarrow> p_y (player (loop time rnd g)) = groundY - PLAYER_SIZE)"
    by (simp add: loop_def Let_def updateGame_player stepPlayer_grounded_iff)
  show ?thesis using a b c by (simp add: game_inv_def restY_def)
qed

theorem player_never_below_ground_witness:
  "reachable (fire (Start 0) (mount None 0))
   \<and> status (fire (Start 0) (mount None 0)) = Running
   \<and> p_y (player (fire (Start 0) (mount None 0))) \<le> 526
   \<and> p_y (player (jump (fire (Start 0) (mount None 0)))) \<le> 526
   \<and> (p_onGround (player (loop 16 (0, 0, 0) (fire (Start 0) (mount None 0))))
       \<longleftrightarrow> p_y (player (loop 16 (0, 0, 0) (fire (Start 0) (mount None 0)))) = 526)"
proof -
  have r: "reachable (fire (Start 0) (mount None 0))"
    by (intro r_fire r_mount) simp
  have s: "status (fire (Start 0) (mount None 0)) = Running"
    by (simp add: startGame_def mount_def prepareGame_def setStatusSafe_def setScoreSafe_def)
  show ?thesis
    using r s player_never_below_ground [OF r, of 16 "(0, 0, 0)"]
    by (simp add: consts_defs)
qed

subsection \<open>The injected obstacle\<close>

text \<open>
  Claim C1 says that an obstacle at \<open>x = 0\<close> of width 50 and height 80 collides with the
  player at rest at \<open>x = 74\<close>. The obstacle spans 0 to 50 and the hitbox 80 to 110: the
  overlap test fails on the obstacle as injected and after a tick of 16 ms, the game goes on
  running, and the tick counts the obstacle as passed.
\<close>

theorem injected_obstacle_counterexample:
  "\<not> overlaps (player (injected 0)) (hd (obstacles (injected 0)))
   \<and> \<not> hit (beforeHit 0.016 (0, 0, 0) (injected 0))
   \<and> status (updateGame 0.016 (0, 0, 0) (injected 0)) = Running
   \<and> score (updateGame 0.016 (0, 0, 0) (injected 0)) = score (injected 0) + 1"
  by (simp add: updateGame_status updateGame_score beforeHit_score hit_def beforeHit_obstacles
      beforeHit_fields injected_def spawnStep_def overlaps_def onScreen_def moved_def
      crosses_def consts_defs restY_def Let_def)

text \<open>
  Claim C1, amended. For the injected obstacle of width 50 and height 80 and the player at
  rest at \<open>x = 74\<close>, a tick that spawns nothing finds a collision, and ends the run,
  exactly when the left edge of the obstacle after the move of the tick lies strictly
  between 30 and 110; the score is then unchanged. At or left of 30 the run goes on, and
  left of 24 the obstacle is counted as passed.
\<close>

theorem injected_obstacle_collision:
  assumes "d < 1"
  shows "(hit (beforeHit d rnd (injected x0)) \<longleftrightarrow> 30 < x0 - 190 * d \<and> x0 - 190 * d < 110)
    \<and> (status (updateGame d rnd (injected x0)) = Over
          \<longleftrightarrow> 30 < x0 - 190 * d \<and> x0 - 190 * d < 110)
    \<and> (status (updateGame d rnd (injected x0)) = Over
          \<longrightarrow> score (updateGame d rnd (injected x0)) = score (injected x0))
    \<and> (x0 - 190 * d \<le> 30
          \<longrightarrow> status (updateGame d rnd (injected x0)) = Running)
    \<and> (x0 - 190 * d < 24
          \<longrightarrow> score (updateGame d rnd (injected x0)) = score (injected x0) + 1)"
proof -
  have f: "status (injected x0) = Running" "score (injected x0) = 0" "speed (injected x0) = 190"
      "player (injected x0) = \<lparr>p_x = 74, p_y = 526, p_vy = 0, p_onGround = True\<rparr>"
      "obstacles (injected x0) = [\<lparr>o_x = x0, o_width = 50, o_height = 80, o_passed = False\<rparr>]"
      "spawnTimer (injected x0) = 1"
    by (simp_all add: injected_def restY_def consts_defs)
  have sp: "obstacles (spawnStep d rnd (injected x0)) = obstacles (injected x0)"
    using assms by (simp add: spawnStep_def f Let_def)
  have pl: "stepPlayer d \<lparr>p_x = 74, p_y = 526, p_vy = 0, p_onGround = True\<rparr>
      = \<lparr>p_x = 74, p_y = 526, p_vy = 0, p_onGround = True\<rparr>"
    by (simp add: stepPlayer_def consts_defs Let_def)
  have h: "hit (beforeHit d rnd (injected x0)) \<longleftrightarrow> 30 < x0 - 190 * d \<and> x0 - 190 * d < 110"
    using assms
    by (auto simp: hit_def beforeHit_obstacles beforeHit_fields sp pl f
        overlaps_def onScreen_def moved_def consts_defs restY_def Let_def)
  have sc: "score (beforeHit d rnd (injected x0)) = (if x0 - 190 * d < 24 then 1 else 0)"
    using assms
    by (simp add: beforeHit_score beforeHit_fields sp f crosses_def)
  show ?thesis using h sc
    by (auto simp: updateGame_status updateGame_score f)
qed

theorem injected_obstacle_collision_witness:
  "(0.016 :: real) < 1
   \<and> status (updateGame 0.016 (0, 0, 0) (injected 60)) = Over
   \<and> score (updateGame 0.016 (0, 0, 0) (injected 60)) = score (injected 60)
   \<and> status (updateGame 0.016 (0, 0, 0) (injected 0)) = Running
   \<and> score (updateGame 0.016 (0, 0, 0) (injected 0)) = score (injected 0) + 1"
proof -
  have h: "(0.016 :: real) < 1" by simp
  show ?thesis
    using h injected_obstacle_collision [OF h, of "(0, 0, 0)" 60]
      injected_obstacle_collision [OF h, of "(0, 0, 0)" 0]
    by simp
qed

subsection \<open>Best score\<close>

lemma best_advances_refl: "best_advances g g"
  by (simp add: best_advances_def)

lemma best_advances_same: "best g' = best g \<Longrightarrow> storage g' = storage g \<Longrightarrow> best_advances g g'"
  by (simp add: best_advances_def)

lemma best_advances_trans: "best_advances g g' \<Longrightarrow> best_advances g' g'' \<Longrightarrow> best_advances g g''"
  by (auto simp: best_advances_def)

lemma best_advances_updateBest: "best_advances g (updateBest v g)"
  by (auto simp: best_advances_def updateBest_def)

lemma best_advances_passObstacle: "best_advances g (snd (passObstacle dx ob g))"
proof -
  have "best_advances g (setScoreSafe v g)" for v
    by (simp add: best_advances_def setScoreSafe_def)
  then show ?thesis
    using best_advances_trans[OF _ best_advances_updateBest]
    by (simp add: passObstacle_def Let_def best_advances_refl)
qed

lemma best_advances_forEach: "best_advances g (snd (forEachObstacle dx obs g))"
proof (induction obs arbitrary: g)
  case Nil
  show ?case by (simp add: best_advances_refl)
next
  case (Cons ob obs)
  have "best_advances g (snd (forEachObstacle dx obs (snd (passObstacle dx ob g))))"
    using best_advances_passObstacle Cons by (rule best_advances_trans)
  then show ?case by (simp add: split_beta)
qed

lemma best_advances_beforeHit: "best_advances g (beforeHit d rnd g)"
proof -
  let ?g2 = "spawnStep d rnd (g\<lparr>player := stepPlayer d (player g)\<rparr>)"
  let ?g3 = "snd (forEachObstacle (speed ?g2 * d) (obstacles ?g2) ?g2)"
  have a: "best_advances g ?g2" by (rule best_advances_same) simp_all
  have b: "best_advances ?g2 ?g3" by (rule best_advances_forEach)
  have c: "best_advances ?g3 (beforeHit d rnd g)"
    by (rule best_advances_same) (simp_all add: beforeHit_def Let_def)
  show ?thesis using a b c by (blast intro: best_advances_trans)
qed

lemma best_advances_endGame: "best_advances g (endGame g)"
proof (cases "status g = Running")
  case True
  have "best_advances g (setStatusSafe Over g)"
    by (simp add: best_advances_def setStatusSafe_def)
  then show ?thesis using True best_advances_trans[OF _ best_advances_updateBest]
    by (simp add: endGame_def)
next
  case False
  then show ?thesis by (simp add: endGame_def best_advances_refl)
qed

lemma best_advances_updateGame: "best_advances g (updateGame d rnd g)"
  using best_advances_beforeHit[of g d rnd]
    best_advances_trans[OF best_advances_beforeHit best_advances_endGame, of g d rnd]
  by (simp add: updateGame_beforeHit)

lemma best_advances_loop: "best_advances g (loop t rnd g)"
proof -
  have a: "best_advances g (g\<lparr>lastTime := t\<rparr>)" by (simp add: best_advances_def)
  show ?thesis
    using a best_advances_trans[OF a best_advances_updateGame]
    by (simp add: loop_def Let_def)
qed

lemma best_advances_fire: "best_advances g (fire e g)"
proof (cases e)
  case (Frame t rnd)
  then show ?thesis by (simp add: best_advances_loop)
next
  case (Start now)
  then show ?thesis by (simp add: best_advances_def startGame_def setStatusSafe_def)
next
  case Jump
  then show ?thesis by (simp add: best_advances_def jump_def)
next
  case Reset
  then show ?thesis
    by (simp add: best_advances_def prepareGame_def setStatusSafe_def setScoreSafe_def)
qed

lemma best_advances_run: "best_advances g (run es g)"
proof (induction es arbitrary: g)
  case Nil
  show ?case by (simp add: best_advances_refl)
next
  case (Cons e es)
  have "best_advances g (run es (fire e g))"
    using best_advances_fire Cons by (rule best_advances_trans)
  then show ?case by simp
qed

text \<open>
  Claim C5. Over any sequence of frames, starts, jumps and resets the best score never
  decreases, and the stored entry is untouched unless the best score has grown.
  \<^verbatim>\<open>updateBest\<close> with a value at most the current best returns the state as it is, stored
  entry and best score included; with a larger value it sets the best score to it and
  stores its decimal digits.
\<close>

theorem best_never_decreases:
  "best g \<le> best (run es g)
   \<and> (best (run es g) = best g \<longrightarrow> storage (run es g) = storage g)
   \<and> (Finite v \<le> best g \<longrightarrow> updateBest v g = g)
   \<and> (best g < Finite v \<longrightarrow>
        best (updateBest v g) = Finite v \<and> storage (updateBest v g) = Some (toString10 v))"
  using best_advances_run[of g es] by (auto simp: best_advances_def updateBest_def)

theorem best_never_decreases_witness:
  "best (injected 0) = Finite 0
   \<and> best (run [Frame 16 (0, 0, 0), Reset, Start 20] (injected 0)) = Finite 1
   \<and> storage (run [Frame 16 (0, 0, 0), Reset, Start 20] (injected 0)) = Some (js ''1'')
   \<and> best (injected 0) \<le> best (run [Frame 16 (0, 0, 0), Reset, Start 20] (injected 0))
   \<and> best (run [Jump, Reset] (injected 0)) = best (injected 0)
   \<and> storage (run [Jump, Reset] (injected 0)) = storage (injected 0)
   \<and> Finite 0 \<le> best (injected 0)
   \<and> updateBest 0 (injected 0) = injected 0
   \<and> best (injected 0) < Finite 7
   \<and> best (updateBest 7 (injected 0)) = Finite 7
   \<and> storage (updateBest 7 (injected 0)) = Some (js ''7'')"
proof -
  have a: "best (run [Jump, Reset] (injected 0)) = best (injected 0)"
    by (simp add: jump_def prepareGame_def setStatusSafe_def setScoreSafe_def injected_def)
  have b: "best (injected 0) = Finite 0" by (simp add: injected_def)
  have c: "toString10 7 = js ''7''" by (simp add: toString10_def digits10.simps js_def)
  have e: "best (run [Frame 16 (0, 0, 0), Reset, Start 20] (injected 0)) = Finite 1
      \<and> storage (run [Frame 16 (0, 0, 0), Reset, Start 20] (injected 0)) = Some (js ''1'')"
    by (simp add: loop_def updateGame_def spawnStep_def passObstacle_def stepPlayer_def
        updateBest_def setScoreSafe_def setStatusSafe_def endGame_def hit_def overlaps_def
        onScreen_def injected_def prepareGame_def startGame_def toString10_def digits10.simps
        js_def restY_def consts_defs Let_def)
  show ?thesis
    using a b c e best_never_decreases [of "injected 0" "[Frame 16 (0, 0, 0), Reset, Start 20]" 0]
      best_never_decreases [of "injected 0" "[Jump, Reset]" 7]
    by simp
qed

subsection \<open>Spawning and speed\<close>

lemma difficultyBoost_bounds: "0 \<le> sc \<Longrightarrow> 1.2 \<le> difficultyBoost sc \<and> difficultyBoost sc \<le> 1.7"
  by (auto simp: difficultyBoost_def min_def)

lemma difficultyBoost_mono: "sc \<le> sc' \<Longrightarrow> difficultyBoost sc \<le> difficultyBoost sc'"
  by (auto simp: difficultyBoost_def min_def)

lemma spawn_interval_lower:
  assumes "0 \<le> sc" "0 \<le> rt"
  shows "8 / 17 \<le> 0.8 / difficultyBoost sc + rt * 0.4"
proof -
  have b: "0 < difficultyBoost sc" "difficultyBoost sc \<le> 1.7"
    using difficultyBoost_bounds[OF assms(1)] by simp_all
  have "0.8 / 1.7 \<le> 0.8 / difficultyBoost sc"
    using b by (intro divide_left_mono) simp_all
  then show ?thesis using assms(2) by simp
qed

lemma updateGame_spawnTimer:
  "spawnTimer (updateGame d (rw, rh, rt) g) =
     (if spawnTimer g - d \<le> 0 then 0.8 / difficultyBoost (score g) + rt * 0.4
      else spawnTimer g - d)"
  by (simp add: updateGame_beforeHit beforeHit_spawnTimer)

text \<open>
  Claim C6. A tick whose countdown runs out sets the speed to the smaller of the speed
  plus 3 and 360; any other tick leaves it. In every reachable state the speed is at most
  360. The countdown is reset to 0.8 divided by the difficulty factor, plus the random
  jitter; the factor grows with the score and lies between 1.2 and 1.7, so the new
  countdown is at least 8/17 of a second.
\<close>

theorem speed_capped_and_spawn_interval_bounded:
  assumes "reachable g" "unit_interval rt"
  shows "speed g \<le> 360
    \<and> speed (updateGame d (rw, rh, rt) g)
        = (if spawnTimer g - d \<le> 0 then min 360 (speed g + 3) else speed g)
    \<and> speed g \<le> speed (updateGame d (rw, rh, rt) g)
    \<and> speed (updateGame d (rw, rh, rt) g) \<le> 360
    \<and> (spawnTimer g - d \<le> 0 \<longrightarrow>
         spawnTimer (updateGame d (rw, rh, rt) g)
           = 0.8 / difficultyBoost (score g) + rt * 0.4
         \<and> 8 / 17 \<le> spawnTimer (updateGame d (rw, rh, rt) g))
    \<and> difficultyBoost (score g) = min (1.2 + real_of_int (score g) * 0.015) 1.7
    \<and> 1.2 \<le> difficultyBoost (score g) \<and> difficultyBoost (score g) \<le> 1.7
    \<and> difficultyBoost (score g) \<le> difficultyBoost (score g + 1)"
proof -
  have i: "game_inv g" using assms(1) by (rule reachable_inv)
  then have s: "speed g \<le> 360" "0 \<le> score g" by (simp_all add: game_inv_def)
  have rt: "0 \<le> rt" using assms(2) by (simp add: unit_interval_def)
  note iv = spawn_interval_lower[OF s(2) rt]
  note db = difficultyBoost_bounds[OF s(2)]
  have m: "difficultyBoost (score g) \<le> difficultyBoost (score g + 1)"
    by (rule difficultyBoost_mono) simp
  show ?thesis using s iv db m
    by (simp add: updateGame_speed updateGame_spawnTimer) (simp add: difficultyBoost_def)
qed

theorem speed_capped_and_spawn_interval_bounded_witness:
  "reachable (startGame 0 (mount None 0)) \<and> unit_interval 0
   \<and> spawnTimer (startGame 0 (mount None 0)) - 1 \<le> 0
   \<and> speed (updateGame 1 (0, 0, 0) (startGame 0 (mount None 0))) = 193
   \<and> spawnTimer (updateGame 1 (0, 0, 0) (startGame 0 (mount None 0))) = 2 / 3
   \<and> (8 :: real) / 17 \<le> 2 / 3"
proof -
  have "reachable (fire (Start 0) (mount None 0))"
    by (intro r_fire r_mount) simp
  then have r: "reachable (startGame 0 (mount None 0))" by simp
  have u: "unit_interval 0" by (simp add: unit_interval_def)
  have f: "spawnTimer (startGame 0 (mount None 0)) = 1"
      "speed (startGame 0 (mount None 0)) = 190"
      "score (startGame 0 (mount None 0)) = 0"
    by (simp_all add: startGame_def mount_def prepareGame_def setStatusSafe_def setScoreSafe_def)
  show ?thesis
    using r u speed_capped_and_spawn_interval_bounded [OF r u, of 1 0 0]
    by (simp add: f difficultyBoost_def)
qed

subsection \<open>A new obstacle\<close>

lemma step_bound:
  assumes "0 \<le> s" "s \<le> 360" "d \<le> 0.035"
  shows "s * d \<le> (12.6 :: real)"
proof (cases "0 \<le> d")
  case True
  have "s * d \<le> 360 * 0.035" using assms True by (intro mult_mono) simp_all
  then show ?thesis by simp
next
  case False
  then have "s * d \<le> 0" using assms(1) by (simp add: mult_nonneg_nonpos)
  then show ?thesis by simp
qed

text \<open>
  Claim C10. A tick whose countdown runs out appends an obstacle whose left edge is at
  \<open>WORLD_WIDTH\<close> plus its width. The frame's delta is at most 0.035 and the speed at most
  360, so the move of the same tick takes it left by at most 12.6: at the end of the tick
  it is the last obstacle of the list, its left edge is still right of \<open>WORLD_WIDTH\<close>, it is
  not marked passed and it does not overlap the player. The hypothesis \<open>game_inv g\<close> holds
  in every reachable state (lemma \<open>reachable_inv\<close>).
\<close>

theorem new_obstacle_clear_of_player:
  assumes "game_inv g" "status g = Running" "unit_interval rw"
    and "d = min 0.035 ((time - lastTime g) / 1000)"
    and "spawnTimer g - d \<le> 0"
  shows "obstacles (spawnStep d (rw, rh, rt) g)
       = obstacles g @ [\<lparr>o_x = WORLD_WIDTH + (44 + rw * 32), o_width = 44 + rw * 32,
                          o_height = 60 + rh * 90, o_passed = False\<rparr>]
    \<and> speed (loop time (rw, rh, rt) g) * d \<le> 360 * 0.035
    \<and> obstacles (loop time (rw, rh, rt) g) \<noteq> []
    \<and> last (obstacles (loop time (rw, rh, rt) g))
       = \<lparr>o_x = WORLD_WIDTH + (44 + rw * 32) - speed (loop time (rw, rh, rt) g) * d,
          o_width = 44 + rw * 32, o_height = 60 + rh * 90, o_passed = False\<rparr>
    \<and> WORLD_WIDTH < o_x (last (obstacles (loop time (rw, rh, rt) g)))
    \<and> \<not> o_passed (last (obstacles (loop time (rw, rh, rt) g)))
    \<and> \<not> overlaps (player (loop time (rw, rh, rt) g)) (last (obstacles (loop time (rw, rh, rt) g)))"
proof -
  let ?g1 = "g\<lparr>lastTime := time\<rparr>"
  let ?g' = "loop time (rw, rh, rt) g"
  let ?new = "\<lparr>o_x = WORLD_WIDTH + (44 + rw * 32), o_width = 44 + rw * 32,
               o_height = 60 + rh * 90, o_passed = False\<rparr>"
  let ?dx = "speed ?g' * d"
  have lp: "?g' = updateGame d (rw, rh, rt) ?g1"
    using assms(2,4) by (simp add: loop_def Let_def)
  have sp: "obstacles (spawnStep d (rw, rh, rt) h) = obstacles h @ [?new]"
    if "spawnTimer h - d \<le> 0" for h
    using that by (simp add: spawnStep_def Let_def)
  have sv: "speed ?g' = min 360 (speed g + 3)"
    using assms(5) by (simp add: lp updateGame_speed)
  have "0 \<le> speed g" "speed g \<le> 360" using assms(1) by (simp_all add: game_inv_def)
  then have "0 \<le> speed ?g'" "speed ?g' \<le> 360" by (simp_all add: sv)
  moreover have "d \<le> 0.035" using assms(4) by simp
  ultimately have dx: "?dx \<le> 12.6" by (rule step_bound)
  have w: "0 \<le> rw" using assms(3) by (simp add: unit_interval_def)
  have px: "p_x (player g) = 74" using assms(1) by (simp add: game_inv_def)
  let ?b = "beforeHit d (rw, rh, rt) ?g1"
  have e1: "obstacles ?g' = obstacles ?b" by (simp add: lp updateGame_beforeHit)
  have e2: "speed ?b = speed ?g'" by (simp add: lp updateGame_beforeHit)
  have mv: "moved ?dx 74 ?new = ?new\<lparr>o_x := WORLD_WIDTH + (44 + rw * 32) - ?dx\<rparr>"
    using dx w by (simp add: moved_def WORLD_WIDTH_def)
  have os: "onScreen (moved ?dx 74 ?new)"
    unfolding mv using dx w by (simp add: onScreen_def WORLD_WIDTH_def)
  have e3: "obstacles ?b = filter onScreen (map (moved ?dx 74) (obstacles g @ [?new]))"
  proof -
    have a: "p_x (player ?g1) = 74" using px by simp
    have b: "obstacles (spawnStep d (rw, rh, rt) ?g1) = obstacles g @ [?new]"
      using sp[of ?g1] assms(5) by simp
    show ?thesis by (subst beforeHit_obstacles) (simp only: a b e2)
  qed
  have ob: "obstacles ?g' = filter onScreen (map (moved ?dx 74) (obstacles g)) @ [moved ?dx 74 ?new]"
    unfolding e1 e3 using os by simp
  have ne: "obstacles ?g' \<noteq> []" unfolding ob by simp
  have l: "last (obstacles ?g') = ?new\<lparr>o_x := WORLD_WIDTH + (44 + rw * 32) - ?dx\<rparr>"
    unfolding ob mv by simp
  have pl: "p_x (player ?g') = 74" by (simp add: lp updateGame_player px)
  have no: "\<not> overlaps (player ?g') (last (obstacles ?g'))"
    unfolding l using dx w by (simp add: overlaps_def pl consts_defs)
  have far: "WORLD_WIDTH < o_x (last (obstacles ?g'))"
    unfolding l using dx w by simp
  have np: "\<not> o_passed (last (obstacles ?g'))" unfolding l by simp
  have "?dx \<le> 360 * 0.035" using dx by simp
  then show ?thesis
    using sp[OF assms(5)] ne l no far np by simp
qed


theorem new_obstacle_clear_of_player_witness:
  "game_inv ((injected 300)\<lparr>spawnTimer := 0.01\<rparr>)
   \<and> status ((injected 300)\<lparr>spawnTimer := 0.01\<rparr>) = Running
   \<and> unit_interval 0.5
   \<and> spawnTimer ((injected 300)\<lparr>spawnTimer := 0.01\<rparr>) - 0.016 \<le> 0
   \<and> last (obstacles (loop 16 (0.5, 0.5, 0.5) ((injected 300)\<lparr>spawnTimer := 0.01\<rparr>)))
       = \<lparr>o_x = 416.912, o_width = 60, o_height = 105, o_passed = False\<rparr>"
proof -
  let ?g = "(injected 300)\<lparr>spawnTimer := 0.01\<rparr>"
  have i: "game_inv ?g" by (simp add: game_inv_def injected_def)
  have s: "status ?g = Running" by (simp add: injected_def)
  have u: "unit_interval 0.5" by (simp add: unit_interval_def)
  have d: "(0.016 :: real) = min 0.035 ((16 - lastTime ?g) / 1000)" by (simp add: injected_def)
  have t: "spawnTimer ?g - 0.016 \<le> 0" by (simp add: injected_def)
  have v: "speed (loop 16 (0.5, 0.5, 0.5) ?g) = 193"
    by (simp add: loop_def Let_def updateGame_speed injected_def)
  show ?thesis
    using i s u t v new_obstacle_clear_of_player [OF i s u d t, of "0.5" "0.5"]
    by (simp add: WORLD_WIDTH_def)
qed

subsection \<open>Scoring\<close>

lemma forEach_best_le:
  "best (snd (forEachObstacle dx obs g))
     \<le> max (best g) (Finite (score (snd (forEachObstacle dx obs g))))"
proof (induction obs arbitrary: g)
  case Nil
  show ?case by simp
next
  case (Cons ob obs)
  let ?g1 = "snd (passObstacle dx ob g)"
  let ?r = "snd (forEachObstacle dx obs ?g1)"
  have a: "best ?g1 \<le> max (best g) (Finite (score ?g1))"
    by (simp add: passObstacle_best passObstacle_score)
  have b: "Finite (score ?g1) \<le> Finite (score ?r)"
    by (simp add: forEach_score)
  have "best ?r \<le> max (best g) (Finite (score ?r))"
    using a b Cons[of ?g1] by (rule le_max_chain)
  then show ?case by (simp add: split_beta)
qed

lemma beforeHit_best_le:
  "best (beforeHit d rnd g) \<le> max (best g) (Finite (score (beforeHit d rnd g)))"
proof -
  let ?g2 = "spawnStep d rnd (g\<lparr>player := stepPlayer d (player g)\<rparr>)"
  show ?thesis
    using forEach_best_le[of "speed ?g2 * d" "obstacles ?g2" ?g2]
    by (simp add: beforeHit_def Let_def)
qed

lemma scored_obstacle_does_not_overlap:
  "crosses dx (p_x p) ob \<Longrightarrow> \<not> overlaps p (moved dx (p_x p) ob)"
  by (simp add: crosses_def overlaps_def moved_def)

text \<open>
  Claim C3. The scoring pass of a tick runs before the overlap test. When a tick of a
  running game counts an obstacle as passed and also finds a collision, the run ends and
  the final score still holds every increment of the pass; the best score is the larger of
  the old best score and the final score.
\<close>

theorem score_kept_when_run_ends:
  assumes "status g = Running"
    and "\<exists>ob \<in> set (obstacles (spawnStep d rnd g)).
           crosses (speed (beforeHit d rnd g) * d) (p_x (player g)) ob"
    and "hit (beforeHit d rnd g)"
  shows "status (updateGame d rnd g) = Over
    \<and> score (updateGame d rnd g) = score (beforeHit d rnd g)
    \<and> score (updateGame d rnd g) = score g +
         int (length (filter (crosses (speed (beforeHit d rnd g) * d) (p_x (player g)))
           (obstacles (spawnStep d rnd g))))
    \<and> score g + 1 \<le> score (updateGame d rnd g)
    \<and> best (updateGame d rnd g) = max (best g) (Finite (score (updateGame d rnd g)))"
proof -
  let ?b = "beforeHit d rnd g"
  let ?P = "crosses (speed ?b * d) (p_x (player g))"
  have u: "updateGame d rnd g = endGame ?b" using assms(3) by (simp add: updateGame_beforeHit)
  have st: "status ?b = Running" using assms(1) by (simp add: beforeHit_fields)
  have "filter ?P (obstacles (spawnStep d rnd g)) \<noteq> []"
    using assms(2) by (simp add: filter_empty_conv)
  then have n: "1 \<le> int (length (filter ?P (obstacles (spawnStep d rnd g))))"
    by (cases "filter ?P (obstacles (spawnStep d rnd g))") simp_all
  have bl: "best g \<le> best ?b" by (rule beforeHit_best_ge)
  have bu: "best ?b \<le> max (best g) (Finite (score ?b))" by (rule beforeHit_best_le)
  have be: "best (endGame ?b) = max (Finite (score ?b)) (best ?b)"
    using st by (simp add: endGame_best)
  have sc: "score ?b = score g + int (length (filter ?P (obstacles (spawnStep d rnd g))))"
    by (rule beforeHit_score)
  have bm: "best (endGame ?b) = max (best g) (Finite (score ?b))"
    unfolding be using bl bu by (rule max_absorb_between)
  show ?thesis
    unfolding u using st n bm sc by (simp add: endGame_status)
qed

theorem score_kept_when_run_ends_witness:
  "status twoObstacles = Running
   \<and> hit (beforeHit 0.016 (0, 0, 0) twoObstacles)
   \<and> status (updateGame 0.016 (0, 0, 0) twoObstacles) = Over
   \<and> score twoObstacles = 0
   \<and> score (updateGame 0.016 (0, 0, 0) twoObstacles) = 1
   \<and> best (updateGame 0.016 (0, 0, 0) twoObstacles) = Finite 1"
proof -
  let ?g = "twoObstacles"
  have f: "status ?g = Running" "score ?g = 0" "best ?g = Finite 0" "speed ?g = 190" "spawnTimer ?g = 1"
      "player ?g = \<lparr>p_x = 74, p_y = 526, p_vy = 0, p_onGround = True\<rparr>"
      "obstacles ?g = [\<lparr>o_x = 0, o_width = 50, o_height = 80, o_passed = False\<rparr>,
          \<lparr>o_x = 60, o_width = 50, o_height = 80, o_passed = False\<rparr>]"
    by (simp_all add: twoObstacles_def injected_def restY_def consts_defs)
  have sp: "obstacles (spawnStep d rnd ?g) = obstacles ?g" if "d < 1" for d rnd
    using that by (simp add: spawnStep_def f Let_def)
  have pl: "stepPlayer d \<lparr>p_x = 74, p_y = 526, p_vy = 0, p_onGround = True\<rparr>
      = \<lparr>p_x = 74, p_y = 526, p_vy = 0, p_onGround = True\<rparr>" for d
    by (simp add: stepPlayer_def consts_defs Let_def)
  have sv: "speed (beforeHit d rnd ?g) = 190" if "d < 1" for d rnd
    using that by (simp add: beforeHit_fields f)
  have c: "\<exists>ob \<in> set (obstacles (spawnStep 0.016 (0, 0, 0) ?g)).
      crosses (speed (beforeHit 0.016 (0, 0, 0) ?g) * 0.016) (p_x (player ?g)) ob"
    by (simp add: sp sv f crosses_def)
  have h: "hit (beforeHit 0.016 (0, 0, 0) ?g)"
    by (simp add: hit_def beforeHit_obstacles beforeHit_fields sp sv pl f
        overlaps_def onScreen_def moved_def consts_defs Let_def)
  show ?thesis
    using f(1) h score_kept_when_run_ends [OF f(1) c h]
    by (simp add: sp sv f crosses_def)
qed

lemma followObstacle_passed: "o_passed ob \<Longrightarrow> followObstacle ticks ob = 0"
proof (induction ticks arbitrary: ob)
  case Nil
  show ?case by simp
next
  case (Cons t ticks)
  obtain dx g where t: "t = (dx, g)" by (cases t)
  have "o_passed (fst (passObstacle dx ob g))" using Cons.prems by (simp add: passObstacle_fst moved_def)
  from Cons.IH[OF this] show ?case
    using Cons.prems by (simp add: t split_beta passObstacle_score crosses_def)
qed

lemma followObstacle_bounds: "0 \<le> followObstacle ticks ob \<and> followObstacle ticks ob \<le> 1"
proof (induction ticks arbitrary: ob)
  case Nil
  show ?case by simp
next
  case (Cons t ticks)
  obtain dx g where t: "t = (dx, g)" by (cases t)
  show ?case
  proof (cases "crosses dx (p_x (player g)) ob")
    case True
    then have "o_passed (fst (passObstacle dx ob g))"
      by (simp add: passObstacle_fst moved_def crosses_def)
    then have "followObstacle ticks (fst (passObstacle dx ob g)) = 0"
      by (rule followObstacle_passed)
    then show ?thesis using True by (simp add: t split_beta passObstacle_score)
  next
    case False
    then show ?thesis using Cons.IH[of "fst (passObstacle dx ob g)"]
      by (simp add: t split_beta passObstacle_score)
  qed
qed

lemma filter_moved_unpassed:
  "length (filter (crosses dx px) xs)
     + length (filter (\<lambda>ob. \<not> o_passed ob) (filter onScreen (map (moved dx px) xs)))
   \<le> length (filter (\<lambda>ob. \<not> o_passed ob) xs)"
  by (induction xs) (auto simp: crosses_def moved_def)

lemma spawnStep_unpassed:
  "length (filter (\<lambda>ob. \<not> o_passed ob) (obstacles (spawnStep d rnd g)))
     = unpassed g + (length (obstacles (spawnStep d rnd g)) - length (obstacles g))"
  by (simp add: spawnStep_def unpassed_def Let_def split_beta)

lemma updateGame_obstacles:
  "obstacles (updateGame d rnd g) =
     filter onScreen (map (moved (speed (updateGame d rnd g) * d) (p_x (player g)))
       (obstacles (spawnStep d rnd g)))"
  using beforeHit_obstacles[of d rnd g] by (simp add: updateGame_beforeHit)

lemma updateGame_potential:
  "score (updateGame d rnd g) + int (unpassed (updateGame d rnd g))
     \<le> score g + int (unpassed g)
         + int (length (obstacles (spawnStep d rnd g)) - length (obstacles g))"
proof -
  let ?dx = "speed (updateGame d rnd g) * d"
  let ?xs = "obstacles (spawnStep d rnd g)"
  have sp: "speed (beforeHit d rnd g) = speed (updateGame d rnd g)"
    by (simp add: updateGame_beforeHit)
  have s: "score (updateGame d rnd g)
      = score g + int (length (filter (crosses ?dx (p_x (player g))) ?xs))"
    using beforeHit_score[of d rnd g] by (simp add: updateGame_score sp)
  have u: "unpassed (updateGame d rnd g)
      = length (filter (\<lambda>ob. \<not> o_passed ob)
          (filter onScreen (map (moved ?dx (p_x (player g))) ?xs)))"
    unfolding unpassed_def by (subst updateGame_obstacles) simp
  show ?thesis
    using filter_moved_unpassed[of ?dx "p_x (player g)" ?xs] spawnStep_unpassed[of d rnd g]
    unfolding s u by linarith
qed

lemma fire_potential:
  assumes "0 \<le> score g"
  shows "score (fire e g) + int (unpassed (fire e g))
           \<le> score g + int (unpassed g) + int (created e g)
         \<and> 0 \<le> score (fire e g)"
proof (cases e)
  case (Frame t rnd)
  let ?d = "min 0.035 ((t - lastTime g) / 1000)"
  let ?g1 = "g\<lparr>lastTime := t\<rparr>"
  show ?thesis
  proof (cases "status g = Running")
    case True
    have l: "fire e g = updateGame ?d rnd ?g1"
      using True Frame by (simp add: loop_def Let_def)
    have o: "obstacles (spawnStep ?d rnd ?g1) = obstacles (spawnStep ?d rnd g)"
      by (simp add: spawnStep_def Let_def split_beta)
    have c: "created e g = length (obstacles (spawnStep ?d rnd g)) - length (obstacles g)"
      using True Frame by simp
    have u: "unpassed ?g1 = unpassed g" by (simp add: unpassed_def)
    have "0 \<le> score (updateGame ?d rnd ?g1)"
      using updateGame_score_ge[of ?g1 ?d rnd] assms by simp
    then show ?thesis
      using updateGame_potential[of ?d rnd ?g1] unfolding l c o u by simp
  next
    case False
    then show ?thesis using Frame assms by (simp add: loop_def Let_def unpassed_def)
  qed
next
  case (Start now)
  then show ?thesis using assms by (simp add: startGame_def setStatusSafe_def unpassed_def)
next
  case Jump
  then show ?thesis using assms by (simp add: jump_def unpassed_def)
next
  case Reset
  then show ?thesis using assms
    by (simp add: prepareGame_def setStatusSafe_def setScoreSafe_def unpassed_def)
qed

lemma run_potential:
  "0 \<le> score g \<Longrightarrow>
     score (run es g) + int (unpassed (run es g)) \<le> score g + int (unpassed g) + int (spawns es g)"
proof (induction es arbitrary: g)
  case Nil
  show ?case by simp
next
  case (Cons e es)
  note f = fire_potential[OF Cons.prems, of e]
  from Cons.IH[of "fire e g"] f show ?case by simp
qed


text \<open>
  Claim C4. The body of the \<^verbatim>\<open>forEach\<close> adds 1 to the score when the obstacle is not yet
  passed and its right edge, after the move, is left of the player's \<open>x\<close>, and adds nothing
  otherwise; the obstacle is passed afterwards exactly when it was passed before or its
  right edge is left of the player's \<open>x\<close>. A tick adds to the score the number of
  obstacles for which this holds, and the list it leaves holds the obstacles so moved and
  marked, less those gone off screen: every obstacle left in the list with its right edge
  left of the player is marked passed. Followed over any number of ticks, one obstacle adds
  at most 1 to the score, and nothing once it is passed. Over any sequence of frames,
  starts, jumps and resets, the score together with the number of obstacles still to be
  passed grows by no more than the number of obstacles created: no obstacle is counted a
  second time. The score is never negative in a reachable state.
\<close>

theorem score_once_per_obstacle:
  "score (snd (passObstacle dx ob g))
     = score g + (if \<not> o_passed ob \<and> o_x ob - dx + o_width ob < p_x (player g) then 1 else 0)
   \<and> (o_passed (fst (passObstacle dx ob g))
        \<longleftrightarrow> o_passed ob \<or> o_x ob - dx + o_width ob < p_x (player g))
   \<and> score (updateGame d rnd g) = score g +
        int (length (filter (crosses (speed (updateGame d rnd g) * d) (p_x (player g)))
          (obstacles (spawnStep d rnd g))))
   \<and> obstacles (updateGame d rnd g) =
        filter onScreen (map (moved (speed (updateGame d rnd g) * d) (p_x (player g)))
          (obstacles (spawnStep d rnd g)))
   \<and> (\<forall>ob' \<in> set (obstacles (updateGame d rnd g)).
         o_x ob' + o_width ob' < p_x (player g) \<longrightarrow> o_passed ob')
   \<and> 0 \<le> followObstacle ticks ob \<and> followObstacle ticks ob \<le> 1
   \<and> (o_passed ob \<longrightarrow> followObstacle ticks ob = 0)
   \<and> (0 \<le> score g \<longrightarrow>
        score (run es g) + int (unpassed (run es g))
          \<le> score g + int (unpassed g) + int (spawns es g))
   \<and> (reachable g \<longrightarrow> 0 \<le> score g)"
proof -
  have sp: "speed (updateGame d rnd g) = speed (beforeHit d rnd g)"
    by (simp add: updateGame_beforeHit)
  have r: "reachable g \<longrightarrow> 0 \<le> score g"
    using reachable_inv[of g] by (simp add: game_inv_def)
  have a: "score (snd (passObstacle dx ob g))
     = score g + (if \<not> o_passed ob \<and> o_x ob - dx + o_width ob < p_x (player g) then 1 else 0)"
    by (simp add: passObstacle_score crosses_def)
  have b: "o_passed (fst (passObstacle dx ob g))
        \<longleftrightarrow> o_passed ob \<or> o_x ob - dx + o_width ob < p_x (player g)"
    by (simp add: passObstacle_fst moved_def)
  have c: "score (updateGame d rnd g) = score g +
        int (length (filter (crosses (speed (updateGame d rnd g) * d) (p_x (player g)))
          (obstacles (spawnStep d rnd g))))"
    by (simp add: sp updateGame_score beforeHit_score)
  note o = updateGame_obstacles[of d rnd g]
  have p: "\<forall>ob' \<in> set (obstacles (updateGame d rnd g)).
         o_x ob' + o_width ob' < p_x (player g) \<longrightarrow> o_passed ob'"
    by (subst o) (auto simp: moved_def)
  have q: "0 \<le> score g \<longrightarrow>
        score (run es g) + int (unpassed (run es g))
          \<le> score g + int (unpassed g) + int (spawns es g)"
    using run_potential[of g es] by simp
  show ?thesis
    using a b c o p q r followObstacle_bounds[of ticks ob] followObstacle_passed[of ob ticks]
    by blast
qed

theorem score_once_per_obstacle_witness:
  "reachable (mount None 0) \<and> 0 \<le> score (mount None 0)
   \<and> score (snd (passObstacle 3 (hd (obstacles (injected 0))) (injected 0))) = 1
   \<and> o_passed (fst (passObstacle 3 (hd (obstacles (injected 0))) (injected 0)))
   \<and> followObstacle [(3, injected 0), (3, injected 0), (3, injected 0)]
        (hd (obstacles (injected 0))) = 1
   \<and> followObstacle [(3, injected 0), (3, injected 0)]
        (fst (passObstacle 3 (hd (obstacles (injected 0))) (injected 0))) = 0
   \<and> 0 \<le> score (injected 0) \<and> unpassed (injected 0) = 1
   \<and> spawns [Frame 16 (0, 0, 0), Frame 32 (0, 0, 0)] (injected 0) = 0
   \<and> score (run [Frame 16 (0, 0, 0)] (injected 0)) = 1
   \<and> score (run [Frame 16 (0, 0, 0), Frame 32 (0, 0, 0)] (injected 0)) = 1
   \<and> unpassed (run [Frame 16 (0, 0, 0), Frame 32 (0, 0, 0)] (injected 0)) = 0"
proof -
  let ?ob = "hd (obstacles (injected 0))"
  let ?es = "[Frame 16 (0, 0, 0), Frame 32 (0, 0, 0)]"
  have r: "reachable (mount None 0)" by (rule r_mount)
  have f: "?ob = \<lparr>o_x = 0, o_width = 50, o_height = 80, o_passed = False\<rparr>"
      "score (injected 0) = 0" "p_x (player (injected 0)) = 74" "unpassed (injected 0) = 1"
    by (simp_all add: injected_def unpassed_def)
  have p: "o_passed (fst (passObstacle 3 ?ob (injected 0)))"
    by (simp add: passObstacle_fst moved_def f)
  have e: "followObstacle [(3, injected 0), (3, injected 0), (3, injected 0)] ?ob = 1"
    unfolding f(1)
    by (simp add: passObstacle_def Let_def setScoreSafe_def f(2,3))
  have t: "score (run [Frame 16 (0, 0, 0)] (injected 0)) = 1
      \<and> score (run ?es (injected 0)) = 1 \<and> unpassed (run ?es (injected 0)) = 0
      \<and> spawns ?es (injected 0) = 0"
    by (simp add: loop_def updateGame_def spawnStep_def passObstacle_def stepPlayer_def
        updateBest_def setScoreSafe_def setStatusSafe_def endGame_def hit_def overlaps_def
        onScreen_def injected_def unpassed_def restY_def consts_defs Let_def)
  show ?thesis
    using r p e t
      score_once_per_obstacle [of 3 ?ob "injected 0" 0 "(0, 0, 0)"
        "[(3, injected 0), (3, injected 0)]" ?es]
      score_once_per_obstacle [of 3 "fst (passObstacle 3 ?ob (injected 0))" "mount None 0" 0
        "(0, 0, 0)" "[(3, injected 0), (3, injected 0)]" "[]"]
    by (simp add: f)
qed

subsection \<open>The stored best score\<close>

lemma prepareGame_best [simp]: "best (prepareGame g) = best g"
  by (simp add: prepareGame_def setStatusSafe_def setScoreSafe_def)

lemma mount_best:
  "best (mount stored now) =
     (case parseInt10 (case stored of None \<Rightarrow> js ''0'' | Some s \<Rightarrow> s) of
        None \<Rightarrow> Finite 0 | Some saved \<Rightarrow> if saved > Finite 0 then saved else Finite 0)"
  by (simp add: mount_def loadBest_def split: option.splits)

lemma toNumber_small: "n < 2 ^ 53 \<Longrightarrow> toNumber neg n = Finite ((if neg then - 1 else 1) * int n)"
  by (simp add: toNumber_def roundToDouble_def)

lemma toNumber_huge: "2 ^ 1024 - 2 ^ 970 \<le> n \<Longrightarrow> toNumber False n = Infinity"
  by (simp add: toNumber_def)

lemma toNumber_rounded:
  "n < 2 ^ 1024 - 2 ^ 970 \<Longrightarrow> toNumber False n = Finite (int (roundToDouble n))"
  by (simp add: toNumber_def)

lemma parseInt10_zero: "parseInt10 (js ''0'') = Some (Finite 0)"
  by (simp add: parseInt10_def js_def isWhiteSpace_def isDigit_def toNumber_small)

lemma parseInt10_digits:
  assumes "ds \<noteq> []" "\<forall>c \<in> set ds. isDigit c"
  shows "parseInt10 ds = Some (toNumber False (digitsValue 0 ds))"
proof -
  have hd: "isDigit (hd ds)" using assms by simp
  have nw: "\<not> isWhiteSpace (hd ds)" using hd by (auto simp: isDigit_def isWhiteSpace_def)
  have dw: "dropWhile isWhiteSpace ds = ds" using assms(1) nw by (cases ds) simp_all
  have ns: "hd ds \<noteq> 43 \<and> hd ds \<noteq> 45" using hd by (auto simp: isDigit_def)
  have tw: "takeWhile isDigit ds = ds" using assms(2) by (simp add: takeWhile_eq_all_conv)
  show ?thesis using assms(1) ns
    by (simp add: parseInt10_def dw tw Let_def)
qed

lemma digitsValue_zeros: "digitsValue acc (replicate k 48) = acc * 10 ^ k"
  by (induction k arbitrary: acc) simp_all

lemma parseInt10_overflow: "parseInt10 (49 # replicate 309 48) = Some Infinity"
proof -
  have "parseInt10 (49 # replicate 309 48)
      = Some (toNumber False (digitsValue 0 (49 # replicate 309 48)))"
    by (rule parseInt10_digits) (auto simp: isDigit_def)
  also have "digitsValue 0 (49 # replicate 309 48) = 10 ^ 309"
    by (simp add: digitsValue_zeros)
  also have "toNumber False (10 ^ 309) = Infinity"
    by (rule toNumber_huge) simp
  finally show ?thesis .
qed

text \<open>
  Claim C9 says that only a parsed positive integer replaces the default of 0. A stored
  string of a 1 and 309 zeros is read by \<^verbatim>\<open>parseInt\<close> as \<^verbatim>\<open>Infinity\<close>, which is not
  \<^verbatim>\<open>NaN\<close> and is greater than 0: it becomes the best score.
\<close>

theorem stored_best_infinity_counterexample:
  "parseInt10 (49 # replicate 309 48) = Some Infinity
   \<and> best (mount (Some (49 # replicate 309 48)) 0) = Infinity"
  by (simp add: mount_best parseInt10_overflow)

text \<open>
  Claim C9, amended. At page load the best score is 0 when the key is absent and when
  \<^verbatim>\<open>parseInt\<close> finds no number in the stored string; when it finds one, the best score is
  that number if it is greater than 0, and 0 otherwise. So the best score after loading is
  never below 0, and it differs from 0 only when the stored string parses to it. The number
  \<^verbatim>\<open>parseInt\<close> finds in a string of digits is the integer they denote when that is below
  \<open>2 ^ 53\<close>, that integer rounded to a double when it is below \<open>2 ^ 1024 - 2 ^ 970\<close>, and
  \<^verbatim>\<open>Infinity\<close> from there on, which then is the best score.
\<close>

theorem stored_best_read_at_mount:
  "best (mount None now) = Finite 0
   \<and> (parseInt10 s = None \<longrightarrow> best (mount (Some s) now) = Finite 0)
   \<and> (parseInt10 s = Some n \<longrightarrow>
        best (mount (Some s) now) = (if Finite 0 < n then n else Finite 0))
   \<and> Finite 0 \<le> best (mount stored now)
   \<and> (best (mount stored now) \<noteq> Finite 0 \<longrightarrow>
        (\<exists>t. stored = Some t \<and> parseInt10 t = Some (best (mount stored now))))
   \<and> (ds \<noteq> [] \<and> (\<forall>c \<in> set ds. isDigit c) \<longrightarrow>
        (digitsValue 0 ds < 2 ^ 53 \<longrightarrow>
           parseInt10 ds = Some (Finite (int (digitsValue 0 ds))))
        \<and> (digitsValue 0 ds < 2 ^ 1024 - 2 ^ 970 \<longrightarrow>
           parseInt10 ds = Some (Finite (int (roundToDouble (digitsValue 0 ds)))))
        \<and> (2 ^ 1024 - 2 ^ 970 \<le> digitsValue 0 ds \<longrightarrow>
           parseInt10 ds = Some Infinity \<and> best (mount (Some ds) now) = Infinity))"
proof -
  have a: "best (mount None now) = Finite 0"
    by (simp add: mount_best parseInt10_zero)
  have b: "parseInt10 s = None \<longrightarrow> best (mount (Some s) now) = Finite 0"
    by (simp add: mount_best)
  have c: "parseInt10 s = Some n \<longrightarrow>
        best (mount (Some s) now) = (if Finite 0 < n then n else Finite 0)"
    by (simp add: mount_best)
  have d: "Finite 0 \<le> best (mount stored now)"
    by (auto simp: mount_best less_imp_le split: option.splits)
  have e: "best (mount stored now) \<noteq> Finite 0 \<longrightarrow>
        (\<exists>t. stored = Some t \<and> parseInt10 t = Some (best (mount stored now)))"
    by (auto simp: mount_best parseInt10_zero split: option.splits if_splits)
  have f: "ds \<noteq> [] \<and> (\<forall>c \<in> set ds. isDigit c) \<longrightarrow>
        (digitsValue 0 ds < 2 ^ 53 \<longrightarrow>
           parseInt10 ds = Some (Finite (int (digitsValue 0 ds))))
        \<and> (digitsValue 0 ds < 2 ^ 1024 - 2 ^ 970 \<longrightarrow>
           parseInt10 ds = Some (Finite (int (roundToDouble (digitsValue 0 ds)))))
        \<and> (2 ^ 1024 - 2 ^ 970 \<le> digitsValue 0 ds \<longrightarrow>
           parseInt10 ds = Some Infinity \<and> best (mount (Some ds) now) = Infinity)"
  proof (intro impI conjI)
    assume h: "ds \<noteq> [] \<and> (\<forall>c \<in> set ds. isDigit c)"
    then have p: "parseInt10 ds = Some (toNumber False (digitsValue 0 ds))"
      by (simp add: parseInt10_digits)
    {
      assume "digitsValue 0 ds < 2 ^ 53"
      then show "parseInt10 ds = Some (Finite (int (digitsValue 0 ds)))"
        by (simp add: p toNumber_small)
    }
    {
      assume "digitsValue 0 ds < 2 ^ 1024 - 2 ^ 970"
      then show "parseInt10 ds = Some (Finite (int (roundToDouble (digitsValue 0 ds))))"
        by (simp add: p toNumber_rounded)
    }
    {
      assume "2 ^ 1024 - 2 ^ 970 \<le> digitsValue 0 ds"
      then have i: "parseInt10 ds = Some Infinity" by (simp add: p toNumber_huge)
      then show "parseInt10 ds = Some Infinity" .
      from i show "best (mount (Some ds) now) = Infinity" by (simp add: mount_best)
    }
  qed
  show ?thesis using a b c d e f by blast
qed


theorem stored_best_read_at_mount_witness:
  "parseInt10 (js ''abc'') = None \<and> best (mount (Some (js ''abc'')) 0) = Finite 0
   \<and> parseInt10 [] = None \<and> best (mount (Some []) 0) = Finite 0
   \<and> parseInt10 (js ''-7'') = Some (Finite (- 7)) \<and> best (mount (Some (js ''-7'')) 0) = Finite 0
   \<and> parseInt10 (js ''42'') = Some (Finite 42) \<and> best (mount (Some (js ''42'')) 0) = Finite 42
   \<and> best (mount (Some (js ''42'')) 0) \<noteq> Finite 0
   \<and> js ''9007199254740993'' \<noteq> [] \<and> list_all isDigit (js ''9007199254740993'')
   \<and> digitsValue 0 (js ''9007199254740993'') = 2 ^ 53 + 1
   \<and> parseInt10 (js ''9007199254740993'') = Some (Finite (2 ^ 53))
   \<and> best (mount (Some (js ''9007199254740993'')) 0) = Finite (2 ^ 53)
   \<and> 2 ^ 1024 - 2 ^ 970 \<le> digitsValue 0 (49 # replicate 309 48)
   \<and> best (mount (Some (49 # replicate 309 48)) 0) = Infinity"
proof -
  have p: "parseInt10 (js ''abc'') = None" "parseInt10 [] = None"
      "parseInt10 (js ''-7'') = Some (Finite (- 7))" "parseInt10 (js ''42'') = Some (Finite 42)"
    by (simp_all add: parseInt10_def js_def isWhiteSpace_def isDigit_def toNumber_small)
  have d: "js ''9007199254740993'' \<noteq> [] \<and> (\<forall>c \<in> set (js ''9007199254740993''). isDigit c)"
    by (simp add: js_def isDigit_def)
  have v: "digitsValue 0 (js ''9007199254740993'') = 9007199254740993"
    by (simp add: js_def)
  have b: "bitLength 9007199254740993 = 54"
    by (simp add: bitLength.simps)
  have r: "roundToDouble 9007199254740993 = 9007199254740992"
    by (simp add: roundToDouble_def b Let_def)
  have z: "49 # replicate 309 48 \<noteq> [] \<and> (\<forall>c \<in> set (49 # replicate 309 48). isDigit c)"
    by (auto simp: isDigit_def)
  have h: "(2 :: nat) ^ 1024 - 2 ^ 970 \<le> digitsValue 0 (49 # replicate 309 48)"
    by (simp add: digitsValue_zeros)
  show ?thesis
    using p d z h d[unfolded list_all_iff[symmetric]]
      stored_best_read_at_mount [of 0 "js ''abc''" "Finite 0" "Some (js ''42'')"
        "js ''9007199254740993''"]
      stored_best_read_at_mount [of 0 "[]" "Finite 0" None "49 # replicate 309 48"]
      stored_best_read_at_mount [of 0 "js ''-7''" "Finite (- 7)" None "[48]"]
      stored_best_read_at_mount [of 0 "js ''42''" "Finite 42" None "[48]"]
      stored_best_read_at_mount [of 0 "js ''9007199254740993''" "Finite (2 ^ 53)" None "[48]"]
    by (simp add: v r)
qed

text \<open>
  What \<^verbatim>\<open>updateBest\<close> stores is read back by \<^verbatim>\<open>parseInt\<close> as the same number, as long as
  it is below \<open>2 ^ 53\<close>.
\<close>

lemma digitsValue_append: "digitsValue acc (xs @ ys) = digitsValue (digitsValue acc xs) ys"
  by (induction xs arbitrary: acc) simp_all

lemma digits10_all_digits: "\<forall>c \<in> set (digits10 n). isDigit c"
proof (induction n rule: digits10.induct)
  case (1 n)
  show ?case
  proof (cases "n < 10")
    case True
    then show ?thesis by (subst digits10.simps) (simp add: isDigit_def)
  next
    case False
    have "n mod 10 < 10" by simp
    then have "isDigit (48 + n mod 10)" unfolding isDigit_def by linarith
    then show ?thesis using 1 False by (subst digits10.simps) simp
  qed
qed

lemma digits10_nonempty: "digits10 n \<noteq> []"
  by (subst digits10.simps) simp

lemma digitsValue_digits10: "digitsValue 0 (digits10 n) = n"
proof (induction n rule: digits10.induct)
  case (1 n)
  show ?case
  proof (cases "n < 10")
    case True
    then show ?thesis by (subst digits10.simps) simp
  next
    case False
    then show ?thesis using 1
      by (subst digits10.simps) (simp add: digitsValue_append)
  qed
qed

lemma parseInt10_toString10:
  assumes "0 \<le> v" "v < 2 ^ 53"
  shows "parseInt10 (toString10 v) = Some (Finite v)"
proof -
  have n: "nat v < 2 ^ 53" using assms by (simp add: nat_less_iff)
  have "parseInt10 (digits10 (nat v)) = Some (toNumber False (digitsValue 0 (digits10 (nat v))))"
    using digits10_nonempty digits10_all_digits by (rule parseInt10_digits)
  then show ?thesis
    using assms n by (simp add: toString10_def digitsValue_digits10 toNumber_small)
qed

end
